theory Spec2Isabelle
  imports Complex_Main "HOL-Library.Log_Nat"
begin

section \<open>Numbers of the host language\<close>

text \<open>
  The dashboard computes with the host language's numbers: IEEE double values.  A finite
  value is held as the rational it denotes, \<open>Finite 0\<close> being the positive zero; the
  negative zero, the two infinities and \<open>NaN\<close> are constructors of their own.  The values
  that come from outside are meant to be doubles, and a quotient is rounded to one.
\<close>

datatype number = NaN | PosInfinity | NegInfinity | NegZero | Finite rat

definition isNaN :: "number \<Rightarrow> bool" where
  "isNaN x = (case x of NaN \<Rightarrow> True | _ \<Rightarrow> False)"

text \<open>The real number a finite value stands for; both zeros stand for 0.\<close>

definition mathematical :: "number \<Rightarrow> rat option" where
  "mathematical x = (case x of Finite r \<Rightarrow> Some r | NegZero \<Rightarrow> Some 0 | _ \<Rightarrow> None)"

text \<open>The sign bit of a value that is not \<open>NaN\<close>.\<close>

definition sign_bit :: "number \<Rightarrow> bool" where
  "sign_bit x =
     (case x of NegInfinity \<Rightarrow> True | NegZero \<Rightarrow> True | Finite r \<Rightarrow> r < 0 | _ \<Rightarrow> False)"

definition infinity :: "bool \<Rightarrow> number" where
  "infinity neg = (if neg then NegInfinity else PosInfinity)"

definition zero :: "bool \<Rightarrow> number" where
  "zero neg = (if neg then NegZero else Finite 0)"

text \<open>
  The comparison \<open>x > y\<close>: false as soon as one side is \<open>NaN\<close>; the two zeros compare
  equal.
\<close>

fun gt :: "number \<Rightarrow> number \<Rightarrow> bool" where
  "gt NaN y = False"
| "gt x NaN = False"
| "gt NegInfinity y = False"
| "gt x PosInfinity = False"
| "gt PosInfinity y = True"
| "gt x NegInfinity = True"
| "gt NegZero NegZero = False"
| "gt NegZero (Finite b) = (b < 0)"
| "gt (Finite a) NegZero = (0 < a)"
| "gt (Finite a) (Finite b) = (b < a)"

subsection \<open>Rounding to a double\<close>

text \<open>
  For a positive rational \<open>q\<close>, the integer \<open>e\<close> with \<open>2^e \<le> q < 2^(e+1)\<close>, read off the
  number of bits of the integer part of \<open>q\<close>, or of \<open>1 / q\<close> when \<open>q\<close> is below 1.
\<close>

definition exponent :: "rat \<Rightarrow> int" where
  "exponent q = (if 1 \<le> q then bitlen \<lfloor>q\<rfloor> - 1 else - bitlen (\<lceil>1 / q\<rceil> - 1))"

text \<open>The nearest integer, the even one of the two when \<open>x\<close> lies half way.\<close>

definition round_half_even :: "rat \<Rightarrow> int" where
  "round_half_even x =
     (let n = \<lfloor>x\<rfloor>; d = x - of_int n
      in if d < 1 / 2 then n else if 1 / 2 < d then n + 1 else if even n then n else n + 1)"

text \<open>
  The double nearest to a rational, ties to even.  The magnitude is cut to 53 significant
  bits, or to a multiple of \<open>2^-1074\<close> below the normal range; a result of \<open>2^1024\<close> or
  more is an infinity, and a result of zero keeps the sign.
\<close>

definition to_double :: "rat \<Rightarrow> number" where
  "to_double q =
     (if q = 0 then Finite 0
      else
        (let a = \<bar>q\<bar>;
             e = max (exponent a) (- 1022);
             ulp = 2 powi (e - 52);
             m = of_int (round_half_even (a / ulp)) * ulp
         in if 2 ^ 1024 \<le> m then infinity (q < 0)
            else if m = 0 then zero (q < 0)
            else Finite (if q < 0 then - m else m)))"

text \<open>A value is representable when it is a double: rounding leaves it as it is.\<close>

definition representable :: "number \<Rightarrow> bool" where
  "representable x = (case x of Finite r \<Rightarrow> to_double r = Finite r | _ \<Rightarrow> True)"

text \<open>
  The quotient \<open>x / y\<close>.  The sign of the result is the exclusive or of the signs of the
  operands; the quotient of two finite values that are not zero is rounded.
\<close>

definition divide_number :: "number \<Rightarrow> number \<Rightarrow> number" where
  "divide_number x y =
     (if isNaN x \<or> isNaN y then NaN
      else
        (let neg = (sign_bit x \<noteq> sign_bit y)
         in case (mathematical x, mathematical y) of
              (None, None) \<Rightarrow> NaN
            | (None, Some b) \<Rightarrow> infinity neg
            | (Some a, None) \<Rightarrow> zero neg
            | (Some a, Some b) \<Rightarrow>
                (if b = 0 then (if a = 0 then NaN else infinity neg)
                 else if a = 0 then zero neg
                 else to_double (a / b))))"

subsection \<open>Rendering numbers\<close>

definition digit :: "nat \<Rightarrow> char" where
  "digit d = ''0123456789'' ! (d mod 10)"

fun decimal :: "nat \<Rightarrow> string" where
  "decimal n = (if n < 10 then [digit n] else decimal (n div 10) @ [digit (n mod 10)])"

declare decimal.simps [simp del]

text \<open>
  \<open>Number::toString\<close>, as a template literal applies it.  An integer of magnitude up to
  \<open>2^53\<close> is rendered by its decimal digits.  Every other finite value needs the search for
  the shortest digit string that reads back as the same double; that search is the
  parameter \<open>sr\<close>, given the magnitude.
\<close>

definition numberToString :: "(rat \<Rightarrow> string) \<Rightarrow> number \<Rightarrow> string" where
  "numberToString sr x =
     (case x of
        NaN \<Rightarrow> ''NaN''
      | PosInfinity \<Rightarrow> ''Infinity''
      | NegInfinity \<Rightarrow> ''-Infinity''
      | NegZero \<Rightarrow> ''0''
      | Finite r \<Rightarrow>
          (let s = (if r < 0 then ''-'' else ''''); a = \<bar>r\<bar>
           in if a = of_int \<lfloor>a\<rfloor> \<and> a \<le> 2 ^ 53 then s @ decimal (nat \<lfloor>a\<rfloor>)
              else s @ sr a))"

text \<open>
  \<open>Number.prototype.toFixed(f)\<close> for \<open>0 \<le> f \<le> 100\<close> (the dashboard calls it with
  \<open>f = 1\<close> only, so its range check on \<open>f\<close> never fires).  It works on the real number
  the value stands for.  The integer \<open>n\<close> closest to \<open>x * 10^f\<close> is taken, the larger one
  on a tie; its digits are padded with zeros on the left up to \<open>f + 1\<close> places and the
  point is put before the last \<open>f\<close>.  A magnitude of \<open>10^21\<close> or more, and a value that is
  not finite, are rendered as \<open>Number::toString\<close> renders them.
\<close>

definition toFixed :: "(rat \<Rightarrow> string) \<Rightarrow> number \<Rightarrow> nat \<Rightarrow> string" where
  "toFixed sr x f =
     (case mathematical x of
        Some r \<Rightarrow>
          (let s = (if r < 0 then ''-'' else ''''); a = \<bar>r\<bar>
           in if 10 ^ 21 \<le> a then s @ numberToString sr (Finite a)
              else
                (let n = nat \<lfloor>a * 10 ^ f + 1 / 2\<rfloor>;
                     m = decimal n;
                     m = (if length m \<le> f then replicate (f + 1 - length m) (CHR ''0'') @ m else m);
                     k = length m
                 in if f \<noteq> 0 then s @ take (k - f) m @ ''.'' @ drop (k - f) m else s @ m))
      | None \<Rightarrow> numberToString sr x)"

section \<open>The byte-size formatter\<close>

definition units :: "string list" where
  "units = [''B'', ''kB'', ''MB'', ''GB'', ''TB'', ''PB'']"

text \<open>Reading an array at an index: \<open>None\<close> is \<open>undefined\<close>, the value past the end.\<close>

definition at_index :: "'a list \<Rightarrow> nat \<Rightarrow> 'a option" where
  "at_index xs i = (if i < length xs then Some (xs ! i) else None)"

text \<open>A string or \<open>undefined\<close> inside a template literal.\<close>

definition interpolate :: "string option \<Rightarrow> string" where
  "interpolate v = (case v of None \<Rightarrow> ''undefined'' | Some s \<Rightarrow> s)"

text \<open>
  The loop \<open>while (bytes > 1024) { bytes /= 1024; ++num; }\<close>.  On \<open>PosInfinity\<close> it would
  never stop, so it is a partial function: \<open>None\<close> is "does not return".
\<close>

partial_function (option) scale :: "number \<Rightarrow> nat \<Rightarrow> (number \<times> nat) option" where
  "scale bytes num =
     (if gt bytes (Finite 1024) then scale (divide_number bytes (Finite 1024)) (num + 1)
      else Some (bytes, num))"

declare scale.simps [code]

definition bytesToRead :: "(rat \<Rightarrow> string) \<Rightarrow> number \<Rightarrow> string option" where
  "bytesToRead sr bytes =
     (if isNaN bytes then Some ''0.0 B''
      else if bytes = PosInfinity then Some ''0.0 B''
      else (case scale bytes 0 of
              None \<Rightarrow> None
            | Some (b, num) \<Rightarrow> Some (toFixed sr b 1 @ '' '' @ interpolate (at_index units num))))"

section \<open>Data served by the backend\<close>

text \<open>
  The fields the component reads.  Three field names of the source, \<open>id\<close>, \<open>file\<close> and
  \<open>size\<close>, are already taken and carry a prime here.
\<close>

record file_record =
  id' :: int
  file' :: string
  mimetype :: string
  created_at :: string
  url :: string

record stats_summary =
  size' :: string
  size_num :: number
  count :: number
  count_users :: number
  views_count :: number
  count_by_user :: "(string \<times> number) list"
  types_count :: "(string \<times> number) list"

section \<open>The component's state\<close>

text \<open>
  The five \<open>useState\<close> slots.  \<open>stats\<close> starts as \<open>null\<close>, which is \<open>None\<close>.  \<open>page\<close> and
  \<open>rowsPerPage\<close> hold integers: the index the pagination control reports, and the numeric
  value of the option chosen there.
\<close>

record dashboard =
  images :: "file_record list"
  recent :: "file_record list"
  page :: int
  stats :: "stats_summary option"
  rowsPerPage :: int

definition initial :: dashboard where
  "initial = \<lparr>images = [], recent = [], page = 0, stats = None, rowsPerPage = 10\<rparr>"

subsection \<open>The statistics cards\<close>

text \<open>What a card shows: a placeholder while \<open>stats\<close> is \<open>null\<close>, a text afterwards.\<close>

datatype content = Skeleton | Text string

text \<open>The "Average Size" line: \<open>bytesToRead(stats.size_num / stats.count)\<close>.\<close>

definition averageSize :: "(rat \<Rightarrow> string) \<Rightarrow> dashboard \<Rightarrow> content option" where
  "averageSize sr d =
     (case stats d of
        None \<Rightarrow> Some Skeleton
      | Some st \<Rightarrow> map_option Text (bytesToRead sr (divide_number (size_num st) (count st))))"

text \<open>
  The "Views" line: the view count, then in brackets \<open>'0'\<close> when views per image is
  \<open>NaN\<close> and that quotient otherwise.
\<close>

definition viewsText :: "(rat \<Rightarrow> string) \<Rightarrow> stats_summary \<Rightarrow> string" where
  "viewsText sr st =
     numberToString sr (views_count st) @ '' ('' @
     (if isNaN (divide_number (views_count st) (count st)) then ''0''
      else numberToString sr (divide_number (views_count st) (count st))) @ '')''"

definition views :: "(rat \<Rightarrow> string) \<Rightarrow> dashboard \<Rightarrow> content" where
  "views sr d = (case stats d of None \<Rightarrow> Skeleton | Some st \<Rightarrow> Text (viewsText sr st))"

subsection \<open>The paginated table\<close>

text \<open>
  \<open>Array.prototype.slice(start, end)\<close> on integer arguments: a negative argument counts
  from the end of the array, both are clamped to the array, and an empty range gives the
  empty array.
\<close>

definition slice :: "'a list \<Rightarrow> int \<Rightarrow> int \<Rightarrow> 'a list" where
  "slice xs start fin =
     (let len = int (length xs);
          k = (if start < 0 then max (len + start) 0 else min start len);
          final = (if fin < 0 then max (len + fin) 0 else min fin len)
      in take (nat (final - k)) (drop (nat k) xs))"

definition visibleRows :: "dashboard \<Rightarrow> file_record list" where
  "visibleRows d =
     slice (images d) (page d * rowsPerPage d) (page d * rowsPerPage d + rowsPerPage d)"

text \<open>
  The window as the specification words it: the rows whose index lies in \<open>[lo, hi)\<close>,
  the range clamped to the length of the list.
\<close>

definition rows_in_range :: "'a list \<Rightarrow> nat \<Rightarrow> nat \<Rightarrow> 'a list" where
  "rows_in_range L lo hi = map (\<lambda>i. L ! i) [lo ..< min hi (length L)]"

section \<open>Requests and the order of effects\<close>

text \<open>
  A call of \<open>useFetch\<close> with its arguments: the path, the HTTP method and the body.  An
  argument left out is \<open>None\<close>.  The only body the component sends is \<open>{ id }\<close>.
\<close>

record request =
  path :: string
  http_method :: "string option"
  body :: "int option"

datatype slot = Images | Recent | Page | Stats | RowsPerPage

text \<open>
  What a handler does that can be observed from outside, in the order it happens: a
  request goes out, the awaited request settles (with a response or by throwing), a state
  setter is called.
\<close>

datatype event = Issued request | Settled request | Assigned slot

record session =
  view :: dashboard
  trace :: "event list"


text \<open>
  \<open>useFetch\<close> lives outside this file.  It is a parameter: an answer function that, from
  everything that has happened so far and the request, gives the response or the failure
  thrown.  The backend has one answer function for each shape of response.
\<close>

datatype failure = Failure string

record delete_result =
  error :: "string option"

record backend =
  list_reply :: "event list \<Rightarrow> request \<Rightarrow> failure + file_record list"
  stats_reply :: "event list \<Rightarrow> request \<Rightarrow> failure + stats_summary"
  delete_reply :: "event list \<Rightarrow> request \<Rightarrow> failure + delete_result"

definition useFetch ::
  "(event list \<Rightarrow> request \<Rightarrow> failure + 'a) \<Rightarrow> request \<Rightarrow> session \<Rightarrow> (failure + 'a) \<times> session"
where
  "useFetch answer req s =
     (let s1 = s\<lparr>trace := trace s @ [Issued req]\<rparr>
      in (answer (trace s1) req, s1\<lparr>trace := trace s1 @ [Settled req]\<rparr>))"

subsection \<open>State setters\<close>

definition setImages :: "file_record list \<Rightarrow> session \<Rightarrow> session" where
  "setImages v s = s\<lparr>view := (view s)\<lparr>images := v\<rparr>, trace := trace s @ [Assigned Images]\<rparr>"

definition setRecent :: "file_record list \<Rightarrow> session \<Rightarrow> session" where
  "setRecent v s = s\<lparr>view := (view s)\<lparr>recent := v\<rparr>, trace := trace s @ [Assigned Recent]\<rparr>"

definition setPage :: "int \<Rightarrow> session \<Rightarrow> session" where
  "setPage v s = s\<lparr>view := (view s)\<lparr>page := v\<rparr>, trace := trace s @ [Assigned Page]\<rparr>"

definition setStats :: "stats_summary \<Rightarrow> session \<Rightarrow> session" where
  "setStats v s = s\<lparr>view := (view s)\<lparr>stats := Some v\<rparr>, trace := trace s @ [Assigned Stats]\<rparr>"

definition setRowsPerPage :: "int \<Rightarrow> session \<Rightarrow> session" where
  "setRowsPerPage v s =
     s\<lparr>view := (view s)\<lparr>rowsPerPage := v\<rparr>, trace := trace s @ [Assigned RowsPerPage]\<rparr>"

subsection \<open>The refresh\<close>

definition files_request :: request where
  "files_request = \<lparr>path = ''/api/user/files'', http_method = None, body = None\<rparr>"

definition recent_request :: request where
  "recent_request = \<lparr>path = ''/api/user/recent?filter=media'', http_method = None, body = None\<rparr>"

definition stats_request :: request where
  "stats_request = \<lparr>path = ''/api/stats'', http_method = None, body = None\<rparr>"

text \<open>
  \<open>updateImages\<close>: three awaited requests, then three setters.  A request that throws
  ends the function there, with the failure as its result.
\<close>

definition updateImages :: "backend \<Rightarrow> session \<Rightarrow> (failure + unit) \<times> session" where
  "updateImages be s =
     (case useFetch (list_reply be) files_request s of
        (Inl e, s1) \<Rightarrow> (Inl e, s1)
      | (Inr imgs, s1) \<Rightarrow>
          (case useFetch (list_reply be) recent_request s1 of
             (Inl e, s2) \<Rightarrow> (Inl e, s2)
           | (Inr rcnt, s2) \<Rightarrow>
               (case useFetch (stats_reply be) stats_request s2 of
                  (Inl e, s3) \<Rightarrow> (Inl e, s3)
                | (Inr stts, s3) \<Rightarrow>
                    (Inr (), setRecent rcnt (setStats stts (setImages imgs s3))))))"

subsection \<open>The handlers\<close>

definition handleChangePage :: "int \<Rightarrow> session \<Rightarrow> session" where
  "handleChangePage newPage s = setPage newPage s"

text \<open>
  \<open>handleChangeRowsPerPage\<close>; \<open>v\<close> is the number \<open>+event.target.value\<close> of the chosen
  option.
\<close>

definition handleChangeRowsPerPage :: "int \<Rightarrow> session \<Rightarrow> session" where
  "handleChangeRowsPerPage v s = setPage 0 (setRowsPerPage v s)"

text \<open>The test \<open>!res.error\<close> is on truthiness: a missing field and the empty string pass it.\<close>

definition truthy :: "string option \<Rightarrow> bool" where
  "truthy v = (case v of None \<Rightarrow> False | Some m \<Rightarrow> m \<noteq> [])"

definition delete_request :: "file_record \<Rightarrow> request" where
  "delete_request img =
     \<lparr>path = ''/api/user/files'', http_method = Some ''DELETE'', body = Some (id' img)\<rparr>"

text \<open>
  \<open>handleDelete\<close>.  The refresh it starts is not awaited: its outcome is dropped, and the
  session returned is the one reached when the refresh has run.
\<close>

definition handleDelete :: "backend \<Rightarrow> file_record \<Rightarrow> session \<Rightarrow> (failure + unit) \<times> session" where
  "handleDelete be img s =
     (case useFetch (delete_reply be) (delete_request img) s of
        (Inl e, s1) \<Rightarrow> (Inl e, s1)
      | (Inr res, s1) \<Rightarrow>
          (if \<not> truthy (error res) then (Inr (), snd (updateImages be s1)) else (Inr (), s1)))"

section \<open>Example inputs\<close>

text \<open>
  Values at which the theorems below are instantiated.  None of the numbers rendered in
  the examples needs the digit search, so \<open>no_search\<close> stands for it there.
\<close>

definition no_search :: "rat \<Rightarrow> string" where
  "no_search a = ''?''"

definition example_files :: "file_record list" where
  "example_files =
     [\<lparr>id' = 1, file' = ''a.png'', mimetype = ''image/png'', created_at = ''2021-10-01'',
       url = ''/u/a.png''\<rparr>,
      \<lparr>id' = 2, file' = ''b.mp3'', mimetype = ''audio/mpeg'', created_at = ''2021-10-02'',
       url = ''/u/b.mp3''\<rparr>,
      \<lparr>id' = 3, file' = ''c.mp4'', mimetype = ''video/mp4'', created_at = ''2021-10-03'',
       url = ''/u/c.mp4''\<rparr>]"

definition example_stats :: "number \<Rightarrow> number \<Rightarrow> number \<Rightarrow> stats_summary" where
  "example_stats bytes n v =
     \<lparr>size' = ''?'', size_num = bytes, count = n, count_users = Finite 1, views_count = v,
      count_by_user = [(''admin'', n)], types_count = []\<rparr>"

definition example_session :: session where
  "example_session = \<lparr>view = initial, trace = []\<rparr>"

text \<open>
  A backend that answers every request the same way whatever happened before, except
  that it throws on the requests listed in \<open>down\<close>; a delete is answered with \<open>res\<close>.
\<close>

definition example_backend :: "request list \<Rightarrow> delete_result \<Rightarrow> backend" where
  "example_backend down res =
     \<lparr>list_reply = (\<lambda>h r. if r \<in> set down then Inl (Failure ''down'') else Inr example_files),
      stats_reply =
        (\<lambda>h r. if r \<in> set down then Inl (Failure ''down'')
               else Inr (example_stats (Finite 3072) (Finite 3) (Finite 5))),
      delete_reply = (\<lambda>h r. if r \<in> set down then Inl (Failure ''down'') else Inr res)\<rparr>"

section \<open>Facts about numbers\<close>

lemma mathematical_simps [simp]:
  "mathematical (Finite r) = Some r"
  "mathematical NegZero = Some 0"
  "mathematical NaN = None"
  "mathematical PosInfinity = None"
  "mathematical NegInfinity = None"
  by (simp_all add: mathematical_def)

lemma isNaN_simps [simp]:
  "isNaN NaN"
  "\<not> isNaN (Finite r)"
  "\<not> isNaN NegZero"
  "\<not> isNaN PosInfinity"
  "\<not> isNaN NegInfinity"
  by (simp_all add: isNaN_def)

text \<open>A quotient by the positive zero: \<open>NaN\<close> for a zero, an infinity of the sign of \<open>a\<close> else.\<close>

lemma divide_by_zero:
  "divide_number (Finite a) (Finite 0) =
     (if a = 0 then NaN else if 0 < a then PosInfinity else NegInfinity)"
  by (simp add: divide_number_def sign_bit_def infinity_def)

lemma divide_by_1024:
  "0 < r \<Longrightarrow> divide_number (Finite r) (Finite 1024) = to_double (r / 1024)"
  by (simp add: divide_number_def)

subsection \<open>The exponent of a positive rational\<close>

lemma two_powi_pos: "(0::rat) < 2 powi e"
  by (simp add: power_int_def)

lemma two_powi_mono: "e \<le> e' \<Longrightarrow> (2::rat) powi e \<le> 2 powi e'"
  by (rule power_int_increasing) simp_all

lemma exponent_bounds:
  assumes "0 < q"
  shows "2 powi exponent q \<le> q \<and> q < 2 powi (exponent q + 1)"
proof (cases "1 \<le> q")
  case True
  let ?x = "\<lfloor>q\<rfloor>"
  have x: "0 < ?x" using True by simp
  have b: "2 ^ nat (bitlen ?x - 1) \<le> ?x \<and> ?x < 2 ^ nat (bitlen ?x)"
    using x by (rule bitlen_bounds)
  have l: "1 \<le> bitlen ?x"
    using x bitlen_eq_zero_iff [of ?x] bitlen_nonneg [of ?x] by linarith
  have "(of_int (2 ^ nat (bitlen ?x - 1)) :: rat) \<le> of_int ?x"
    using b by (simp only: of_int_le_iff)
  then have "(2::rat) ^ nat (bitlen ?x - 1) \<le> of_int ?x" by simp
  moreover have "of_int ?x \<le> q" by simp
  ultimately have "(2::rat) ^ nat (bitlen ?x - 1) \<le> q" by linarith
  then have lo: "(2::rat) powi (bitlen ?x - 1) \<le> q"
    using l by (simp add: power_int_def)
  have "?x + 1 \<le> 2 ^ nat (bitlen ?x)" using b by simp
  then have "(of_int (?x + 1) :: rat) \<le> of_int (2 ^ nat (bitlen ?x))"
    by (simp only: of_int_le_iff)
  moreover have "q < of_int (?x + 1)" by simp linarith
  ultimately have hi: "q < (2::rat) powi (bitlen ?x)"
    using l by (simp add: power_int_def)
  show ?thesis using True lo hi by (simp add: exponent_def)
next
  case False
  let ?c = "\<lceil>1 / q\<rceil>"
  let ?k = "bitlen (?c - 1)"
  have inv: "1 < 1 / q" using assms False by simp
  then have c: "0 < ?c - 1" by simp
  have b: "2 ^ nat (?k - 1) \<le> ?c - 1 \<and> ?c - 1 < 2 ^ nat ?k"
    using c by (rule bitlen_bounds)
  have l: "1 \<le> ?k"
    using c bitlen_eq_zero_iff [of "?c - 1"] bitlen_nonneg [of "?c - 1"] by linarith
  have "?c \<le> 2 ^ nat ?k" using b by simp
  then have "(of_int ?c :: rat) \<le> of_int (2 ^ nat ?k)" by (simp only: of_int_le_iff)
  then have "(of_int ?c :: rat) \<le> 2 ^ nat ?k" by simp
  moreover have "1 / q \<le> of_int ?c" by (rule le_of_int_ceiling)
  ultimately have "1 / q \<le> 2 ^ nat ?k" by linarith
  then have "1 \<le> 2 ^ nat ?k * q" using assms by (simp add: field_simps)
  then have lo: "(2::rat) powi (- ?k) \<le> q"
    using l by (simp add: power_int_def field_simps)
  have "(of_int (2 ^ nat (?k - 1)) :: rat) \<le> of_int (?c - 1)"
    using b by (simp only: of_int_le_iff)
  then have "(2::rat) ^ nat (?k - 1) \<le> of_int ?c - 1" by simp
  moreover have "of_int ?c - 1 < 1 / q" by linarith
  ultimately have "2 ^ nat (?k - 1) < 1 / q" by linarith
  then have below: "2 ^ nat (?k - 1) * q < 1" using assms by (simp add: field_simps)
  have hi: "q < (2::rat) powi (- ?k + 1)"
  proof (cases "?k = 1")
    case True
    then show ?thesis using below by simp
  next
    case False
    then have "- ?k + 1 < 0" using l by simp
    then show ?thesis using below l
      by (simp add: power_int_def field_simps nat_diff_distrib)
  qed
  show ?thesis using False lo hi by (simp add: exponent_def)
qed

lemma exponent_unique:
  assumes "0 < q" and "2 powi e \<le> q" and "q < 2 powi (e + 1)"
  shows "exponent q = e"
proof -
  have b: "2 powi exponent q \<le> q \<and> q < 2 powi (exponent q + 1)"
    using assms(1) by (rule exponent_bounds)
  have "\<not> e < exponent q"
  proof
    assume "e < exponent q"
    then have "(2::rat) powi (e + 1) \<le> 2 powi exponent q" by (intro two_powi_mono) simp
    then show False using b assms(3) by linarith
  qed
  moreover have "\<not> exponent q < e"
  proof
    assume "exponent q < e"
    then have "(2::rat) powi (exponent q + 1) \<le> 2 powi e" by (intro two_powi_mono) simp
    then show False using b assms(2) by linarith
  qed
  ultimately show ?thesis by simp
qed

subsection \<open>Division of a double by 1024\<close>

lemma round_half_even_of_int: "round_half_even (of_int n) = n"
  by (simp add: round_half_even_def)

lemma to_double_pos:
  assumes "0 < q" and "e = max (exponent q) (- 1022)" and "u = 2 powi (e - 52)"
    and "n = round_half_even (q / u)"
  shows "to_double q =
     (if 2 ^ 1024 \<le> of_int n * u then PosInfinity
      else if of_int n * u = 0 then Finite 0 else Finite (of_int n * u))"
  using assms by (simp add: to_double_def Let_def infinity_def zero_def)

text \<open>
  A double above 1024 divided by 1024 is a double again, and the division is exact: the
  significand stays, the exponent goes down by 10 and stays in the normal range.
\<close>

lemma to_double_div_1024:
  assumes rep: "to_double r = Finite r" and big: "1024 < r"
  shows "to_double (r / 1024) = Finite (r / 1024)"
proof -
  have pos: "0 < r" using big by simp
  define e where "e = exponent r"
  have eb: "2 powi e \<le> r \<and> r < 2 powi (e + 1)"
    unfolding e_def using pos by (rule exponent_bounds)
  have e10: "10 \<le> e"
  proof (rule ccontr)
    assume "\<not> 10 \<le> e"
    then have "e + 1 \<le> 10" by simp
    then have "(2::rat) powi (e + 1) \<le> 2 powi 10" by (rule two_powi_mono)
    then show False using eb big by simp
  qed
  define u where "u = (2::rat) powi (e - 52)"
  have u: "0 < u" unfolding u_def by (rule two_powi_pos)
  define n where "n = round_half_even (r / u)"
  have me: "e = max (exponent r) (- 1022)" using e10 by (simp add: e_def)
  have unf: "to_double r =
      (if 2 ^ 1024 \<le> of_int n * u then PosInfinity
       else if of_int n * u = 0 then Finite 0 else Finite (of_int n * u))"
    using pos me u_def n_def by (rule to_double_pos)
  have m: "of_int n * u = r" and lt: "\<not> 2 ^ 1024 \<le> of_int n * u"
    using rep pos unfolding unf by (auto split: if_splits)
  have ex: "exponent (r / 1024) = e - 10"
  proof (rule exponent_unique)
    show "0 < r / 1024" using pos by simp
    have "(2::rat) powi (e - 10) = 2 powi e / 2 powi 10" by (rule power_int_diff) simp
    then show "2 powi (e - 10) \<le> r / 1024" using eb by simp
    have "(2::rat) powi (e - 10 + 1) = 2 powi ((e + 1) - 10)" by simp
    also have "\<dots> = 2 powi (e + 1) / 2 powi 10" by (rule power_int_diff) simp
    finally show "r / 1024 < 2 powi (e - 10 + 1)" using eb by simp
  qed
  have p1: "0 < r / 1024" using pos by simp
  have p2: "e - 10 = max (exponent (r / 1024)) (- 1022)" using e10 ex by simp
  have p3: "u / 1024 = 2 powi (e - 10 - 52)"
  proof -
    have "(2::rat) powi (e - 10 - 52) = 2 powi ((e - 52) - 10)" by simp
    also have "\<dots> = 2 powi (e - 52) / 2 powi 10" by (rule power_int_diff) simp
    finally show ?thesis by (simp add: u_def)
  qed
  have "r / u = of_int n" using m u by (simp add: field_simps)
  then have p4: "n = round_half_even (r / 1024 / (u / 1024))"
    using u by (simp add: round_half_even_of_int)
  have m': "of_int n * (u / 1024) = r / 1024" using m by simp
  have "to_double (r / 1024) =
      (if 2 ^ 1024 \<le> of_int n * (u / 1024) then PosInfinity
       else if of_int n * (u / 1024) = 0 then Finite 0 else Finite (of_int n * (u / 1024)))"
    using p1 p2 p3 p4 by (rule to_double_pos)
  then have "to_double (r / 1024) =
      (if 2 ^ 1024 \<le> r / 1024 then PosInfinity
       else if r / 1024 = 0 then Finite 0 else Finite (r / 1024))"
    by (simp only: m')
  moreover have "\<not> 2 ^ 1024 \<le> r / 1024" using lt m pos by simp
  moreover have "r / 1024 \<noteq> 0" using pos by simp
  ultimately show ?thesis by (simp only: if_False)
qed

subsection \<open>The rendering of numbers\<close>

lemma decimal_digit: "n < 10 \<Longrightarrow> decimal n = [digit n]"
  by (subst decimal.simps) simp

lemma decimal_more: "10 \<le> n \<Longrightarrow> decimal n = decimal (n div 10) @ [digit (n mod 10)]"
  by (subst decimal.simps) simp

lemma decimal_not_Nil: "decimal n \<noteq> []"
  by (subst decimal.simps) simp

lemma decimal_times_10: "0 < b \<Longrightarrow> decimal (10 * b) = decimal b @ ''0''"
  by (subst decimal.simps) (simp add: digit_def)

lemma floor_tenths: "\<lfloor>(of_nat b :: rat) * 10 + 1 / 2\<rfloor> = 10 * int b"
  by (rule floor_unique) simp_all

text \<open>A whole number below \<open>10^21\<close> is rendered by \<open>toFixed(1)\<close> as its digits and \<open>.0\<close>.\<close>

lemma toFixed_nat:
  assumes "(of_nat b :: rat) < 10 ^ 21"
  shows "toFixed sr (Finite (of_nat b)) 1 = decimal b @ ''.0''"
proof (cases "b = 0")
  case True
  then show ?thesis by (simp add: toFixed_def decimal_digit digit_def)
next
  case False
  have "nat \<lfloor>(of_nat b :: rat) * 10 + 1 / 2\<rfloor> = 10 * b"
    by (simp add: floor_tenths)
  moreover have "decimal (10 * b) = decimal b @ ''0''"
    using False by (simp add: decimal_times_10)
  moreover have "length (decimal b) \<noteq> 0"
    using decimal_not_Nil by simp
  ultimately show ?thesis
    using assms by (simp add: toFixed_def Let_def)
qed

lemma numberToString_nat:
  assumes "v \<le> 2 ^ 53"
  shows "numberToString sr (Finite (of_nat v)) = decimal v"
proof -
  have "(of_nat v :: rat) \<le> of_nat (2 ^ 53)"
    using assms by (simp only: of_nat_le_iff)
  then have "(of_nat v :: rat) \<le> 2 ^ 53" by simp
  then show ?thesis by (simp add: numberToString_def)
qed

section \<open>Facts about the division loop\<close>

lemma scale_stop: "\<not> gt bytes (Finite 1024) \<Longrightarrow> scale bytes num = Some (bytes, num)"
  by (subst scale.simps) simp

lemma scale_step:
  "gt bytes (Finite 1024) \<Longrightarrow>
   scale bytes num = scale (divide_number bytes (Finite 1024)) (num + 1)"
  by (subst scale.simps) simp

text \<open>One turn of the loop on a double above 1024.\<close>

lemma scale_divide:
  assumes "representable (Finite r)" and "1024 < r"
  shows "scale (Finite r) n = scale (Finite (r / 1024)) (n + 1) \<and>
         representable (Finite (r / 1024))"
proof -
  have "to_double (r / 1024) = Finite (r / 1024)"
    using assms by (intro to_double_div_1024) (simp_all add: representable_def)
  moreover have "divide_number (Finite r) (Finite 1024) = to_double (r / 1024)"
    using assms(2) by (intro divide_by_1024) simp
  moreover have "scale (Finite r) n = scale (divide_number (Finite r) (Finite 1024)) (n + 1)"
    using assms(2) by (simp add: scale_step)
  ultimately show ?thesis by (simp add: representable_def)
qed

lemma floor_div_1024_less:
  assumes "1024 < (r::rat)"
  shows "nat \<lfloor>r / 1024\<rfloor> < nat \<lfloor>r\<rfloor>"
proof -
  have "r / 1024 \<le> r - 1" using assms by linarith
  then have "\<lfloor>r / 1024\<rfloor> \<le> \<lfloor>r - 1\<rfloor>" by (rule floor_mono)
  then have "\<lfloor>r / 1024\<rfloor> < \<lfloor>r\<rfloor>" by simp
  moreover have "0 < \<lfloor>r\<rfloor>" using assms by simp
  ultimately show ?thesis by simp
qed

text \<open>
  On a finite double the loop stops: above 1024 a division by 1024 lowers the integer
  part of the value, which is positive there.
\<close>

lemma scale_Finite_returns:
  "representable (Finite r) \<Longrightarrow> \<exists>b k. scale (Finite r) n = Some (b, k)"
proof (induction "nat \<lfloor>r\<rfloor>" arbitrary: r n rule: less_induct)
  case less
  show ?case
  proof (cases "1024 < r")
    case True
    have d: "scale (Finite r) n = scale (Finite (r / 1024)) (n + 1) \<and>
        representable (Finite (r / 1024))"
      using less.prems True by (rule scale_divide)
    have "nat \<lfloor>r / 1024\<rfloor> < nat \<lfloor>r\<rfloor>" using True by (rule floor_div_1024_less)
    then have "\<exists>b k. scale (Finite (r / 1024)) (n + 1) = Some (b, k)"
      using d by (intro less.hyps) simp_all
    then show ?thesis using d by simp
  next
    case False
    then show ?thesis by (simp add: scale_stop)
  qed
qed

text \<open>
  The formatter returns on every double: the two guards keep \<open>NaN\<close> and \<open>PosInfinity\<close>,
  the one value the loop would not leave, away from the loop.
\<close>

lemma bytesToRead_returns:
  assumes "representable bytes"
  shows "\<exists>y. bytesToRead sr bytes = Some y"
proof (cases bytes)
  case (Finite r)
  then have "representable (Finite r)" using assms by simp
  then obtain b k where "scale (Finite r) 0 = Some (b, k)"
    using scale_Finite_returns by blast
  then show ?thesis using Finite by (simp add: bytesToRead_def)
next
  case NegInfinity
  then show ?thesis by (simp add: bytesToRead_def scale_stop)
next
  case NegZero
  then show ?thesis by (simp add: bytesToRead_def scale_stop)
qed (simp_all add: bytesToRead_def)

text \<open>
  The index the loop returns counts its divisions: it never goes down, and a double
  above \<open>1024^k\<close> adds at least \<open>k\<close> to it.
\<close>

lemma scale_index_mono:
  "representable (Finite r) \<Longrightarrow> scale (Finite r) n = Some (b, m) \<Longrightarrow> n \<le> m"
proof (induction "nat \<lfloor>r\<rfloor>" arbitrary: r n rule: less_induct)
  case less
  show ?case
  proof (cases "1024 < r")
    case True
    have d: "scale (Finite r) n = scale (Finite (r / 1024)) (n + 1) \<and>
        representable (Finite (r / 1024))"
      using less.prems(1) True by (rule scale_divide)
    have "nat \<lfloor>r / 1024\<rfloor> < nat \<lfloor>r\<rfloor>" using True by (rule floor_div_1024_less)
    then have "n + 1 \<le> m"
      using d less.prems(2) by (intro less.hyps [of "r / 1024" "n + 1"]) simp_all
    then show ?thesis by simp
  next
    case False
    then show ?thesis using less.prems by (simp add: scale_stop)
  qed
qed

lemma scale_index_lower:
  "representable (Finite r) \<Longrightarrow> 1024 ^ k < r \<Longrightarrow> scale (Finite r) n = Some (b, m) \<Longrightarrow>
   n + k \<le> m"
proof (induction k arbitrary: r n)
  case 0
  then show ?case using scale_index_mono by simp
next
  case (Suc k)
  have "(1::rat) \<le> 1024 ^ k" by simp
  then have "(1024::rat) \<le> 1024 ^ Suc k" by simp
  then have g: "1024 < r" using Suc.prems(2) by linarith
  have d: "scale (Finite r) n = scale (Finite (r / 1024)) (n + 1) \<and>
      representable (Finite (r / 1024))"
    using Suc.prems(1) g by (rule scale_divide)
  have "1024 ^ k < r / 1024" using Suc.prems(2) by simp
  then have "n + 1 + k \<le> m"
    using d Suc.prems(3) by (intro Suc.IH [of "r / 1024" "n + 1"]) simp_all
  then show ?case by simp
qed

text \<open>The loop on \<open>2 * 1024^6\<close>, which is the double \<open>2^61\<close>.\<close>

lemma representable_2_61: "representable (Finite 2305843009213693952)"
proof -
  have "exponent 2305843009213693952 = 61"
    by (rule exponent_unique) simp_all
  then have e: "61 = max (exponent 2305843009213693952) (- 1022)" by simp
  have u: "(512::rat) = 2 powi (61 - 52)" by simp
  have n: "4503599627370496 = round_half_even (2305843009213693952 / 512)"
    by (simp add: round_half_even_def)
  have "to_double 2305843009213693952 =
      (if 2 ^ 1024 \<le> of_int 4503599627370496 * (512::rat) then PosInfinity
       else if of_int 4503599627370496 * (512::rat) = 0 then Finite 0
       else Finite (of_int 4503599627370496 * 512))"
    using _ e u n by (rule to_double_pos) simp
  then show ?thesis by (simp add: representable_def)
qed

lemma scale_2_61: "scale (Finite 2305843009213693952) 0 = Some (Finite 2, 6)"
proof -
  note r0 = representable_2_61
  from scale_divide [OF r0, of 0]
  have s1: "scale (Finite 2305843009213693952) 0 = scale (Finite 2251799813685248) 1"
    and r1: "representable (Finite 2251799813685248)"
    by (simp_all add: eval_nat_numeral)
  from scale_divide [OF r1, of 1]
  have s2: "scale (Finite 2251799813685248) 1 = scale (Finite 2199023255552) 2"
    and r2: "representable (Finite 2199023255552)"
    by (simp_all add: eval_nat_numeral)
  from scale_divide [OF r2, of 2]
  have s3: "scale (Finite 2199023255552) 2 = scale (Finite 2147483648) 3"
    and r3: "representable (Finite 2147483648)"
    by (simp_all add: eval_nat_numeral)
  from scale_divide [OF r3, of 3]
  have s4: "scale (Finite 2147483648) 3 = scale (Finite 2097152) 4"
    and r4: "representable (Finite 2097152)"
    by (simp_all add: eval_nat_numeral)
  from scale_divide [OF r4, of 4]
  have s5: "scale (Finite 2097152) 4 = scale (Finite 2048) 5"
    and r5: "representable (Finite 2048)"
    by (simp_all add: eval_nat_numeral)
  from scale_divide [OF r5, of 5]
  have s6: "scale (Finite 2048) 5 = scale (Finite 2) 6"
    by (simp add: eval_nat_numeral)
  have "scale (Finite 2) 6 = Some (Finite 2, 6)" by (simp add: scale_stop)
  with s1 s2 s3 s4 s5 s6 show ?thesis by simp
qed

section \<open>Facts about slices and requests\<close>

lemma slice_nat: "slice xs (int m) (int m + int n) = take n (drop m xs)"
proof (cases "m \<le> length xs")
  case True
  then have k: "min (int m) (int (length xs)) = int m" by simp
  have "min (int m + int n) (int (length xs)) - int m = int (min n (length xs - m))"
    using True by (simp add: min_def) linarith
  then have "nat (min (int m + int n) (int (length xs)) - int m) = min n (length xs - m)"
    by simp
  moreover have "take (min n (length xs - m)) (drop m xs) = take n (drop m xs)"
    by (simp add: min_def)
  ultimately show ?thesis by (simp add: slice_def Let_def k)
next
  case False
  then show ?thesis by (simp add: slice_def Let_def min_def)
qed

lemma take_drop_rows_in_range: "take n (drop m xs) = rows_in_range xs m (m + n)"
  unfolding rows_in_range_def
  by (rule nth_equalityI) auto

lemma useFetch_eq:
  "useFetch answer req s =
     (answer (trace s @ [Issued req]) req, s\<lparr>trace := trace s @ [Issued req, Settled req]\<rparr>)"
  by (simp add: useFetch_def Let_def)

lemmas setters = setImages_def setRecent_def setPage_def setStats_def setRowsPerPage_def

text \<open>Every refresh starts by sending the request for the file list.\<close>

lemma updateImages_extends:
  "\<exists>rest. trace (snd (updateImages be s)) = trace s @ Issued files_request # rest"
  by (simp add: updateImages_def useFetch_eq setters split: sum.splits)


text \<open>Every delete starts by sending its request, which then settles.\<close>

lemma handleDelete_sends:
  "\<exists>rest. trace (snd (handleDelete be img s)) =
     trace s @ Issued (delete_request img) # Settled (delete_request img) # rest"
proof (cases "delete_reply be (trace s @ [Issued (delete_request img)]) (delete_request img)")
  case (Inl e)
  then show ?thesis by (simp add: handleDelete_def useFetch_eq)
next
  case (Inr res)
  let ?s1 = "s\<lparr>trace := trace s @ [Issued (delete_request img), Settled (delete_request img)]\<rparr>"
  obtain rest where "trace (snd (updateImages be ?s1)) = trace ?s1 @ Issued files_request # rest"
    using updateImages_extends by blast
  then show ?thesis using Inr by (simp add: handleDelete_def useFetch_eq)
qed

section \<open>The byte-size formatter: claims C2, C3, C4\<close>

text \<open>
  Claim C2.  For every byte count \<open>b\<close> with \<open>0 \<le> b \<le> 1024\<close> the division loop does not
  run (it returns the value and the index 0 it was given), and the formatter returns the
  decimal digits of \<open>b\<close> followed by \<open>.0 B\<close>.
\<close>

theorem bytesToRead_upto_1024:
  assumes "b \<le> 1024"
  shows "scale (Finite (of_nat b)) 0 = Some (Finite (of_nat b), 0) \<and>
         bytesToRead sr (Finite (of_nat b)) = Some (decimal b @ ''.0 B'')"
proof -
  have "(of_nat b :: rat) \<le> of_nat 1024"
    using assms by (simp only: of_nat_le_iff)
  then have r: "(of_nat b :: rat) \<le> 1024" by simp
  then have s: "scale (Finite (of_nat b)) 0 = Some (Finite (of_nat b), 0)"
    by (simp add: scale_stop)
  have "(of_nat b :: rat) < 10 ^ 21" using r by simp
  then have "toFixed sr (Finite (of_nat b)) 1 = decimal b @ ''.0''"
    by (rule toFixed_nat)
  with s show ?thesis
    by (simp add: bytesToRead_def isNaN_def at_index_def units_def interpolate_def)
qed

text \<open>The theorem at the byte counts 1024, 0 and 37.\<close>

theorem bytesToRead_upto_1024_witness:
  "bytesToRead no_search (Finite 1024) = Some ''1024.0 B'' \<and>
   bytesToRead no_search (Finite 0) = Some ''0.0 B'' \<and>
   bytesToRead no_search (Finite 37) = Some ''37.0 B''"
  using bytesToRead_upto_1024 [of 1024 no_search] bytesToRead_upto_1024 [of 0 no_search]
    bytesToRead_upto_1024 [of 37 no_search]
  by (simp add: decimal_digit decimal_more digit_def)

text \<open>
  Claim C3 says that \<open>NaN\<close> and both infinities are rendered as \<open>0.0 B\<close>.  The second
  guard compares with \<open>Infinity\<close> only, so \<open>-Infinity\<close> passes both guards, fails the loop
  test and reaches \<open>toFixed\<close>, which renders it by name.
\<close>

theorem bytesToRead_NegInfinity_counterexample:
  "bytesToRead no_search NegInfinity = Some ''-Infinity B'' \<and>
   bytesToRead no_search NegInfinity \<noteq> Some ''0.0 B''"
  by (simp add: bytesToRead_def isNaN_def scale_stop toFixed_def numberToString_def
      at_index_def units_def interpolate_def)

text \<open>
  Claim C3, as amended.  The formatter maps \<open>NaN\<close> and \<open>+Infinity\<close> to \<open>0.0 B\<close>, and
  \<open>-Infinity\<close> to \<open>-Infinity B\<close>.
\<close>

theorem bytesToRead_not_finite:
  "bytesToRead sr NaN = Some ''0.0 B'' \<and>
   bytesToRead sr PosInfinity = Some ''0.0 B'' \<and>
   bytesToRead sr NegInfinity = Some ''-Infinity B''"
  by (simp add: bytesToRead_def isNaN_def scale_stop toFixed_def numberToString_def
      at_index_def units_def interpolate_def)

text \<open>
  Claim C4.  There is a finite input above \<open>1024^6\<close> on which the loop leaves the unit
  index at or beyond the length of the unit list, so that the lookup reads past the end
  and the unit is rendered as \<open>undefined\<close>.  The input found is \<open>2 * 1024^6\<close>, a power of
  two and so a double: six divisions, all exact, bring it to 2.  (By \<open>scale_index_lower\<close>
  every finite double above \<open>1024^6\<close> does the same.)
\<close>

theorem unit_index_out_of_range:
  "\<exists>r b num. 1024 ^ 6 < r \<and> scale (Finite r) 0 = Some (b, num) \<and>
     length units \<le> num \<and> at_index units num = None \<and>
     bytesToRead sr (Finite r) = Some (toFixed sr b 1 @ '' undefined'')"
proof -
  have s: "scale (Finite 2305843009213693952) 0 = Some (Finite 2, 6)"
    by (rule scale_2_61)
  have "(1024 ^ 6 :: rat) < 2305843009213693952" by simp
  moreover have "length units \<le> 6" "at_index units 6 = None"
    by (simp_all add: units_def at_index_def)
  moreover have "bytesToRead sr (Finite 2305843009213693952) =
      Some (toFixed sr (Finite 2) 1 @ '' undefined'')"
    using s by (simp add: bytesToRead_def isNaN_def at_index_def units_def interpolate_def)
  ultimately show ?thesis using s by blast
qed

section \<open>The statistics cards: claims C1, C10\<close>

text \<open>
  Claim C1 says that with \<open>count = 0\<close> and \<open>views_count = 5\<close> the views line reads
  \<open>5 (0)\<close>.  The quotient \<open>5 / 0\<close> is \<open>Infinity\<close>, which \<open>isNaN\<close> does not catch, so the
  line reads \<open>5 (Infinity)\<close>.
\<close>

theorem views_zero_count_counterexample:
  "viewsText no_search (example_stats (Finite 0) (Finite 0) (Finite 5)) = ''5 (Infinity)'' \<and>
   viewsText no_search (example_stats (Finite 0) (Finite 0) (Finite 5)) \<noteq> ''5 (0)''"
  by (simp add: viewsText_def example_stats_def divide_by_zero numberToString_def
      decimal_digit digit_def)

text \<open>
  Claim C1, as amended.  With \<open>count = 0\<close> and a whole view count \<open>v\<close> (up to \<open>2^53\<close>,
  where every whole number is rendered by its digits), the views line reads \<open>0 (0)\<close>
  when \<open>v = 0\<close>, the one case the \<open>NaN\<close> guard catches, and the digits of \<open>v\<close> followed
  by \<open>(Infinity)\<close> otherwise: \<open>5 (Infinity)\<close> for \<open>v = 5\<close>.
\<close>

theorem views_zero_count:
  assumes "count st = Finite 0" and "views_count st = Finite (of_nat v)" and "v \<le> 2 ^ 53"
  shows "viewsText sr st = (if v = 0 then ''0 (0)'' else decimal v @ '' (Infinity)'')"
proof -
  have "numberToString sr (Finite (of_nat v)) = decimal v"
    using assms(3) by (rule numberToString_nat)
  then show ?thesis
    using assms(1,2)
    by (simp add: viewsText_def divide_by_zero decimal_digit digit_def
        numberToString_def [of sr PosInfinity])
qed

text \<open>The theorem at \<open>v = 5\<close> and at \<open>v = 0\<close>.\<close>

theorem views_zero_count_witness:
  "viewsText no_search (example_stats (Finite 3072) (Finite 0) (Finite 5)) = ''5 (Infinity)'' \<and>
   viewsText no_search (example_stats (Finite 0) (Finite 0) (Finite 0)) = ''0 (0)''"
  using views_zero_count [of "example_stats (Finite 3072) (Finite 0) (Finite 5)" 5 no_search]
    views_zero_count [of "example_stats (Finite 0) (Finite 0) (Finite 0)" 0 no_search]
  by (simp add: example_stats_def decimal_digit digit_def)

text \<open>
  Claim C10.  With \<open>count = 0\<close> and a finite \<open>size_num = r\<close>, the quotient handed to the
  formatter is \<open>NaN\<close> for \<open>r = 0\<close>, \<open>+Infinity\<close> for \<open>r > 0\<close> and \<open>-Infinity\<close> for
  \<open>r < 0\<close>; in the \<open>NaN\<close> case the average size shown is \<open>0.0 B\<close>.  (So it is for
  \<open>r > 0\<close>, by the second guard; for \<open>r < 0\<close> it is \<open>-Infinity B\<close>.)
\<close>

theorem averageSize_zero_count:
  assumes "stats d = Some st" and "count st = Finite 0" and "size_num st = Finite r"
  shows "divide_number (size_num st) (count st) =
           (if r = 0 then NaN else if 0 < r then PosInfinity else NegInfinity) \<and>
         averageSize sr d = Some (Text (if r < 0 then ''-Infinity B'' else ''0.0 B''))"
proof -
  have "bytesToRead sr NegInfinity = Some ''-Infinity B''"
    by (simp add: bytesToRead_def isNaN_def scale_stop toFixed_def numberToString_def
        at_index_def units_def interpolate_def)
  moreover have "bytesToRead sr NaN = Some ''0.0 B''" "bytesToRead sr PosInfinity = Some ''0.0 B''"
    by (simp_all add: bytesToRead_def isNaN_def)
  ultimately show ?thesis
    using assms by (simp add: averageSize_def divide_by_zero)
qed

text \<open>The theorem at \<open>size_num = 0\<close>, \<open>count = 0\<close>.\<close>

theorem averageSize_zero_count_witness:
  "averageSize no_search
     (initial\<lparr>stats := Some (example_stats (Finite 0) (Finite 0) (Finite 0))\<rparr>) =
     Some (Text ''0.0 B'') \<and>
   divide_number (Finite 0) (Finite 0) = NaN"
  using averageSize_zero_count
    [of "initial\<lparr>stats := Some (example_stats (Finite 0) (Finite 0) (Finite 0))\<rparr>"
      "example_stats (Finite 0) (Finite 0) (Finite 0)" 0 no_search]
  by (simp add: example_stats_def divide_by_zero)

section \<open>Pagination: claims C5, C6\<close>

text \<open>
  Claim C5.  For every file list, page index \<open>p\<close> and page size \<open>s\<close> (natural numbers),
  the rows of the table are the rows with index in \<open>[p * s, p * s + s)\<close>, clamped to the
  list; they are none when \<open>p * s\<close> is at or beyond the end of the list.  The table body
  is a total function of the state: no input makes it fail.
\<close>

theorem visibleRows_window:
  "visibleRows (d\<lparr>page := int p, rowsPerPage := int s\<rparr>) =
     rows_in_range (images d) (p * s) (p * s + s) \<and>
   visibleRows (d\<lparr>page := int p, rowsPerPage := int s\<rparr>) =
     (if length (images d) \<le> p * s then [] else take s (drop (p * s) (images d)))"
proof -
  have "slice (images d) (int (p * s)) (int (p * s) + int s) = take s (drop (p * s) (images d))"
    by (rule slice_nat)
  then have v: "visibleRows (d\<lparr>page := int p, rowsPerPage := int s\<rparr>) =
      take s (drop (p * s) (images d))"
    by (simp add: visibleRows_def)
  have "take s (drop (p * s) (images d)) = rows_in_range (images d) (p * s) (p * s + s)"
    by (rule take_drop_rows_in_range)
  with v have "visibleRows (d\<lparr>page := int p, rowsPerPage := int s\<rparr>) =
      rows_in_range (images d) (p * s) (p * s + s)"
    by (simp only:)
  moreover have "visibleRows (d\<lparr>page := int p, rowsPerPage := int s\<rparr>) =
      (if length (images d) \<le> p * s then [] else take s (drop (p * s) (images d)))"
    using v by simp
  ultimately show ?thesis by (rule conjI)
qed

text \<open>
  Claim C6.  The page-size handler sets \<open>rowsPerPage\<close> to the new value and \<open>page\<close> to
  0, leaves the file list, the recent list and the stats as they were, and calls the two
  setters and nothing else.
\<close>

theorem handleChangeRowsPerPage_frame:
  "rowsPerPage (view (handleChangeRowsPerPage v s)) = v \<and>
   page (view (handleChangeRowsPerPage v s)) = 0 \<and>
   images (view (handleChangeRowsPerPage v s)) = images (view s) \<and>
   recent (view (handleChangeRowsPerPage v s)) = recent (view s) \<and>
   stats (view (handleChangeRowsPerPage v s)) = stats (view s) \<and>
   trace (handleChangeRowsPerPage v s) = trace s @ [Assigned RowsPerPage, Assigned Page]"
  by (simp add: handleChangeRowsPerPage_def setPage_def setRowsPerPage_def)

section \<open>Refresh and delete: claims C7, C8, C9\<close>






text \<open>
  Claim C7.  The delete action sends a \<open>DELETE\<close> request to the files path with the
  record's id as body.  When the request is answered, the refresh runs if and only if the
  \<open>error\<close> field of the answer is not truthy: with an error the session stops right after
  the delete request, with the state untouched; without one it goes on as the refresh
  does from there.
\<close>

theorem handleDelete_refresh:
  assumes "delete_reply be (trace s @ [Issued (delete_request img)]) (delete_request img) = Inr res"
  shows "(let s1 = s\<lparr>trace := trace s @
                     [Issued (delete_request img), Settled (delete_request img)]\<rparr>
          in path (delete_request img) = ''/api/user/files'' \<and>
             http_method (delete_request img) = Some ''DELETE'' \<and>
             body (delete_request img) = Some (id' img) \<and>
             handleDelete be img s =
               (Inr (), if truthy (error res) then s1 else snd (updateImages be s1)) \<and>
             (snd (handleDelete be img s) = s1) = truthy (error res) \<and>
             view (snd (handleDelete be img s)) =
               (if truthy (error res) then view s else view (snd (updateImages be s1))))"
proof -
  define s1 where
    "s1 = s\<lparr>trace := trace s @ [Issued (delete_request img), Settled (delete_request img)]\<rparr>"
  have h: "handleDelete be img s =
      (Inr (), if truthy (error res) then s1 else snd (updateImages be s1))"
    using assms by (simp add: handleDelete_def useFetch_eq s1_def)
  obtain rest where "trace (snd (updateImages be s1)) = trace s1 @ Issued files_request # rest"
    using updateImages_extends by blast
  then have "snd (updateImages be s1) \<noteq> s1" by auto
  then have "(snd (handleDelete be img s) = s1) = truthy (error res)"
    using h by simp
  moreover have "view s1 = view s" by (simp add: s1_def)
  ultimately show ?thesis
    using h unfolding Let_def s1_def [symmetric] by (simp add: delete_request_def)
qed

text \<open>
  The theorem on the first file of the example list, with the answer \<open>{ error: "x" }\<close>
  and with the answer \<open>{}\<close>.
\<close>

theorem handleDelete_refresh_witness:
  "trace (snd (handleDelete (example_backend [] \<lparr>error = Some ''x''\<rparr>) (hd example_files)
      example_session)) =
     [Issued (delete_request (hd example_files)), Settled (delete_request (hd example_files))] \<and>
   view (snd (handleDelete (example_backend [] \<lparr>error = Some ''x''\<rparr>) (hd example_files)
      example_session)) = initial \<and>
   snd (handleDelete (example_backend [] \<lparr>error = None\<rparr>) (hd example_files) example_session) =
     snd (updateImages (example_backend [] \<lparr>error = None\<rparr>)
       \<lparr>view = initial,
        trace = [Issued (delete_request (hd example_files)),
                 Settled (delete_request (hd example_files))]\<rparr>)"
  using handleDelete_refresh [of "example_backend [] \<lparr>error = Some ''x''\<rparr>" example_session
      "hd example_files" "\<lparr>error = Some ''x''\<rparr>"]
    handleDelete_refresh [of "example_backend [] \<lparr>error = None\<rparr>" example_session
      "hd example_files" "\<lparr>error = None\<rparr>"]
  by (simp add: example_backend_def example_session_def truthy_def Let_def)

end
